theory Spec2Isabelle
  imports Main "HOL-Library.AList" "HOL-Library.Multiset" "HOL-Library.Char_ord"
    "HOL-Library.List_Lexorder"
begin

section \<open>Fan-out query dispatch of \<open>query_provider_connections_mixin.py\<close>\<close>

subsection \<open>Exceptions, time and data frames\<close>

text \<open>
  The Python exceptions that the module raises, catches or lets through.
  \<open>MsticpyDataQueryError\<close> is the recognised query failure; \<open>RuntimeError\<close> stands
  for any other exception a driver may raise.
\<close>

datatype exc =
    MsticpyDataQueryError
  | RuntimeError
  | ValueError
  | IndexError
  | KeyError
  | ZeroDivisionError

text \<open>
  A \<open>pd.Timestamp\<close> is a count of nanoseconds since the epoch and a
  \<open>pd.Timedelta\<close> a count of nanoseconds, both as integers.
\<close>

type_synonym timestamp = int
type_synonym timedelta = int

definition one_ns :: timedelta where
  "one_ns = 1"

definition one_hour :: timedelta where
  "one_hour = 3600000000000"

definition one_day :: timedelta where
  "one_day = 86400000000000"

text \<open>
  \<open>Timedelta / int\<close> divides the count of nanoseconds by the integer as Python
  divides two integers: the quotient is the double-precision number nearest to
  the exact quotient, ties going to the even significand; the cast back to a count
  of nanoseconds truncates it towards zero. For a positive dividend \<open>a\<close> and a
  positive divisor \<open>b\<close> the significand of that double has 53 bits, so the
  exponent is found by doubling \<open>2 ^ 53 * b\<close> while it does not exceed \<open>a\<close>, or
  by doubling \<open>a\<close> while it is below \<open>2 ^ 52 * b\<close>.
\<close>

function binades_above :: "int \<Rightarrow> int \<Rightarrow> nat" where
  "binades_above a u = (if 0 < u \<and> u \<le> a then Suc (binades_above a (2 * u)) else 0)"
  by pat_completeness auto
termination
  by (relation "measure (\<lambda>(a, u). nat (a - u + 1))") auto

function binades_below :: "int \<Rightarrow> int \<Rightarrow> nat" where
  "binades_below a l = (if 0 < a \<and> a < l then Suc (binades_below (2 * a) l) else 0)"
  by pat_completeness auto
termination
  by (relation "measure (\<lambda>(a, l). nat (l - a))") auto

definition round_half_even :: "int \<Rightarrow> int \<Rightarrow> int" where
  "round_half_even a b =
     (let m = a div b; r = a mod b
      in if b < 2 * r \<or> (2 * r = b \<and> odd m) then m + 1 else m)"

definition float_quotient_trunc :: "int \<Rightarrow> int \<Rightarrow> int" where
  "float_quotient_trunc a b =
     (if a = 0 then 0
      else let e = binades_above a (2 ^ 53 * b); s = binades_below a (2 ^ 52 * b)
           in if 0 < e then round_half_even a (b * 2 ^ e) * 2 ^ e
              else round_half_even (a * 2 ^ s) b div 2 ^ s)"

definition timedelta_div :: "timedelta \<Rightarrow> int \<Rightarrow> timedelta" where
  "timedelta_div d n =
     (if 0 \<le> d then float_quotient_trunc d n else - float_quotient_trunc (- d) n)"

text \<open>
  \<open>pd.date_range(start, end, freq=delta)\<close>: the equally spaced instants
  \<open>start, start + delta, ...\<close> that lie between \<open>start\<close> and \<open>end\<close>, both ends
  included. A zero frequency is refused; a frequency that points away from \<open>end\<close>
  gives the empty index.
\<close>

definition date_range :: "timestamp \<Rightarrow> timestamp \<Rightarrow> timedelta \<Rightarrow> exc + timestamp list" where
  "date_range start end freq =
     (if freq = 0 then Inl ZeroDivisionError
      else if 0 < freq then
        (if end < start then Inr []
         else Inr (map (\<lambda>k. start + int k * freq) [0..<Suc (nat ((end - start) div freq))]))
      else
        (if start < end then Inr []
         else Inr (map (\<lambda>k. start + int k * freq) [0..<Suc (nat ((start - end) div (- freq)))])))"

subsection \<open>The time-range splitter\<close>

text \<open>
  \<open>_calc_split_ranges\<close>. The two iterators of \<open>tee\<close>, the second advanced by one,
  are the list of instants and its tail. \<open>ranges[-1]\<close> on an empty list raises
  \<open>IndexError\<close>.
\<close>

definition calc_split_ranges ::
  "timestamp \<Rightarrow> timestamp \<Rightarrow> timedelta \<Rightarrow> exc + (timestamp \<times> timestamp) list" where
  "calc_split_ranges start end split_delta =
     (case date_range start end split_delta of
        Inl e \<Rightarrow> Inl e
      | Inr instants \<Rightarrow>
          (let ranges = map (\<lambda>(s_time, e_time). (s_time, e_time - one_ns))
                          (zip instants (tl instants))
           in if ranges = [] then Inl IndexError
              else if end - snd (last ranges) < timedelta_div split_delta 1000
                then Inr (butlast ranges @ [(fst (last ranges), end)])
                else Inr (ranges @ [(snd (last ranges) + one_ns, end)])))"

text \<open>
  What the specification asks of the ranges: every range is ordered, each range
  begins one nanosecond after the end of the one before it (so the ranges are
  contiguous and do not overlap), the first begins at \<open>start\<close> and the last ends
  at \<open>end\<close>.
\<close>

fun contiguous :: "(timestamp \<times> timestamp) list \<Rightarrow> bool" where
  "contiguous [] = True"
| "contiguous [r] = (fst r \<le> snd r)"
| "contiguous (r # r' # rs) = (fst r \<le> snd r \<and> fst r' = snd r + one_ns \<and> contiguous (r' # rs))"

definition covers :: "timestamp \<Rightarrow> timestamp \<Rightarrow> (timestamp \<times> timestamp) list \<Rightarrow> bool" where
  "covers start end ranges =
     (ranges \<noteq> [] \<and> contiguous ranges \<and> fst (hd ranges) = start \<and> snd (last ranges) = end)"

subsection \<open>Data frames\<close>

text \<open>
  A \<open>pd.DataFrame\<close> is the list of its rows, each with its index label. The
  schema is the backend's and plays no part here.
\<close>

type_synonym 'r dataframe = "(nat \<times> 'r) list"

definition empty_frame :: "'r dataframe" where
  "empty_frame = []"

definition df_empty :: "'r dataframe \<Rightarrow> bool" where
  "df_empty df = (df = [])"

definition rows_of :: "'r dataframe \<Rightarrow> 'r list" where
  "rows_of df = map snd df"

text \<open>\<open>pd.concat(frames)\<close> keeps every row's index label.\<close>

definition pd_concat :: "'r dataframe list \<Rightarrow> 'r dataframe" where
  "pd_concat frames = concat frames"

text \<open>\<open>pd.concat(frames, ignore_index=True)\<close> numbers the rows afresh from 0.\<close>

definition pd_concat_ignore_index :: "'r dataframe list \<Rightarrow> 'r dataframe" where
  "pd_concat_ignore_index frames =
     (let rows = rows_of (concat frames) in zip [0..<length rows] rows)"

subsection \<open>Tasks and the world they run in\<close>

text \<open>
  A query task is a zero-argument callable that returns a frame or raises. It may
  answer differently each time it is called (a backend that fails once and then
  recovers), so a task is the function from the number of its earlier calls to the
  outcome of the next one. A dictionary of tasks is the list of its items in
  insertion order; its keys are distinct.
\<close>

datatype 'r outcome = Returns "'r dataframe" | Raises exc

type_synonym 'r query_task = "nat \<Rightarrow> 'r outcome"

type_synonym ('k, 'r) query_tasks = "('k \<times> 'r query_task) list"

datatype 'k log_entry =
    Info_running_sequentially
  | Info_query_failed 'k
  | Info_running_threaded nat
  | Info_task_completed 'k
  | Warning_task_failed 'k
  | Warning_all_queries_failed
  | Warning_cannot_split

text \<open>
  The world records how often each task has been called and what the logger has
  been given.
\<close>

record 'k world =
  calls :: "'k \<Rightarrow> nat"
  logged :: "'k log_entry list"

definition log_msg :: "'k log_entry \<Rightarrow> 'k world \<Rightarrow> 'k world" where
  "log_msg m w = w\<lparr>logged := logged w @ [m]\<rparr>"

definition call_task :: "'k \<Rightarrow> 'r query_task \<Rightarrow> 'k world \<Rightarrow> 'r outcome \<times> 'k world" where
  "call_task query_id query_func w =
     (query_func (calls w query_id), w\<lparr>calls := (calls w)(query_id := Suc (calls w query_id))\<rparr>)"

text \<open>\<open>tqdm\<close> wraps an iterable without changing what it yields.\<close>

definition tqdm :: "'a list \<Rightarrow> 'a list" where
  "tqdm xs = xs"

subsection \<open>The sequential executor\<close>

text \<open>
  The loop of \<open>_exec_synchronous_queries\<close>: only \<open>MsticpyDataQueryError\<close> is
  caught; any other exception leaves the loop and the function.
\<close>

fun sync_loop ::
  "('k, 'r) query_tasks \<Rightarrow> 'r dataframe list \<Rightarrow> 'k world \<Rightarrow> (exc + 'r dataframe list) \<times> 'k world" where
  "sync_loop [] results w = (Inr results, w)"
| "sync_loop ((con_name, query_task) # rest) results w =
     (case call_task con_name query_task w of
        (Returns df, w') \<Rightarrow> sync_loop rest (results @ [df]) w'
      | (Raises e, w') \<Rightarrow>
          if e = MsticpyDataQueryError
          then sync_loop rest results (log_msg (Info_query_failed con_name) w')
          else (Inl e, w'))"

definition exec_synchronous_queries ::
  "bool \<Rightarrow> ('k, 'r) query_tasks \<Rightarrow> 'k world \<Rightarrow> (exc + 'r dataframe) \<times> 'k world" where
  "exec_synchronous_queries progress query_tasks w =
     (let query_iter = (if progress then tqdm query_tasks else query_tasks)
      in case sync_loop query_iter [] (log_msg Info_running_sequentially w) of
           (Inl e, w') \<Rightarrow> (Inl e, w')
         | (Inr results, w') \<Rightarrow>
             if results \<noteq> [] then (Inr (pd_concat results), w')
             else (Inr empty_frame, log_msg Warning_all_queries_failed w'))"

subsection \<open>The parallel executor\<close>

text \<open>
  \<open>run_in_executor\<close> hands every task to the pool at once; each is called once and
  its future holds the outcome.
\<close>

fun submit_all :: "('k, 'r) query_tasks \<Rightarrow> 'k world \<Rightarrow> ('k \<times> 'r outcome) list \<times> 'k world" where
  "submit_all [] w = ([], w)"
| "submit_all ((query_id, query_func) # rest) w =
     (case call_task query_id query_func w of
        (future, w') \<Rightarrow>
          (case submit_all rest w' of (futures, w'') \<Rightarrow> ((query_id, future) # futures, w'')))"

text \<open>
  \<open>asyncio.as_completed\<close> is given the futures without their identifiers and
  yields awaitables that deliver the futures' outcomes in the order in which the
  worker threads finish. That order is the pool's to choose: it is the parameter
  \<open>completion\<close>, a function that permutes the list of futures.
\<close>

type_synonym 'r completion = "'r outcome list \<Rightarrow> 'r outcome list"

definition permuting :: "'r completion \<Rightarrow> bool" where
  "permuting completion = (\<forall>futures. mset (completion futures) = mset futures)"

definition as_completed :: "'r completion \<Rightarrow> 'r outcome list \<Rightarrow> 'r outcome list" where
  "as_completed completion futures = completion futures"

text \<open>The \<open>for\<close> loop that awaits \<open>ids_and_tasks\<close>.\<close>

fun await_loop ::
  "('k \<times> 'r outcome) list \<Rightarrow> 'r dataframe list \<Rightarrow> 'k list \<Rightarrow> 'k world \<Rightarrow>
     'r dataframe list \<times> 'k list \<times> 'k world" where
  "await_loop [] results failed_tasks_ids w = (results, failed_tasks_ids, w)"
| "await_loop ((query_id, thread_task) # rest) results failed_tasks_ids w =
     (case thread_task of
        Returns result \<Rightarrow>
          await_loop rest (results @ [result]) failed_tasks_ids
            (log_msg (Info_task_completed query_id) w)
      | Raises e \<Rightarrow>
          await_loop rest results (failed_tasks_ids @ [query_id])
            (log_msg (Warning_task_failed query_id) w))"

text \<open>
  The body of \<open>_exec_queries_threaded\<close> up to and including the sort:
  \<open>thread_tasks\<close> keeps the insertion order of \<open>query_tasks\<close>; its keys are zipped
  with the awaitables of \<open>as_completed\<close>, and later with the list of results.
  The keys of a dictionary are distinct, so \<open>sorted\<close> on the pairs orders them by
  key alone.
\<close>

definition thread_pass ::
  "'r completion \<Rightarrow> ('k::linorder, 'r) query_tasks \<Rightarrow> bool \<Rightarrow> 'k world \<Rightarrow>
     'r dataframe list \<times> 'k list \<times> 'k world" where
  "thread_pass completion query_tasks progress w =
     (case submit_all query_tasks (log_msg (Info_running_threaded (length query_tasks)) w) of
        (thread_tasks, w1) \<Rightarrow>
          (let task_iter = (if progress then tqdm (as_completed completion (map snd thread_tasks))
                            else as_completed completion (map snd thread_tasks));
               ids_and_tasks = zip (map fst thread_tasks) task_iter
           in case await_loop ids_and_tasks [] [] w1 of
                (results, failed_tasks_ids, w2) \<Rightarrow>
                  (map snd (sort_key fst (zip (map fst thread_tasks) results)),
                   failed_tasks_ids, w2)))"

text \<open>
  The dictionary comprehension that picks the tasks to retry;
  \<open>query_tasks[failed_tasks_id]\<close> raises \<open>KeyError\<close> on a missing key.
\<close>

fun select_tasks :: "('k, 'r) query_tasks \<Rightarrow> 'k list \<Rightarrow> exc + ('k, 'r) query_tasks" where
  "select_tasks query_tasks [] = Inr []"
| "select_tasks query_tasks (failed_tasks_id # ids) =
     (case map_of query_tasks failed_tasks_id of
        None \<Rightarrow> Inl KeyError
      | Some query_func \<Rightarrow>
          (case select_tasks query_tasks ids of
             Inl e \<Rightarrow> Inl e
           | Inr selected \<Rightarrow> Inr ((failed_tasks_id, query_func) # selected)))"

definition merge_results :: "'r dataframe list \<Rightarrow> 'k world \<Rightarrow> (exc + 'r dataframe) \<times> 'k world" where
  "merge_results results w =
     (if results \<noteq> [] then (Inr (pd_concat_ignore_index results), w)
      else (Inr empty_frame, log_msg Warning_all_queries_failed w))"

text \<open>
  \<open>_exec_queries_threaded\<close>: it calls itself once, with \<open>retry=False\<close>, on the
  identifiers it recorded as failed.
\<close>

function exec_queries_threaded ::
  "'r completion \<Rightarrow> ('k::linorder, 'r) query_tasks \<Rightarrow> bool \<Rightarrow> bool \<Rightarrow> 'k world \<Rightarrow>
     (exc + 'r dataframe) \<times> 'k world" where
  "exec_queries_threaded completion query_tasks progress retry w =
     (case thread_pass completion query_tasks progress w of
        (results, failed_tasks_ids, w2) \<Rightarrow>
          if retry \<and> failed_tasks_ids \<noteq> [] then
            (case select_tasks query_tasks failed_tasks_ids of
               Inl e \<Rightarrow> (Inl e, w2)
             | Inr retry_tasks \<Rightarrow>
                 (case exec_queries_threaded completion retry_tasks progress False w2 of
                    (Inl e, w3) \<Rightarrow> (Inl e, w3)
                  | (Inr failed_results, w3) \<Rightarrow>
                      merge_results
                        (if \<not> df_empty failed_results then results @ [failed_results]
                         else results) w3))
          else merge_results results w2)"
  by pat_completeness auto
termination
  by (relation "measure (\<lambda>(completion, query_tasks, progress, retry, w). if retry then 1 else 0)")
    auto

subsection \<open>Split queries\<close>

text \<open>
  A dictionary is the list of its items in insertion order. Storing under a key
  that is present replaces the value in place; a new key goes to the end.
\<close>

definition dict_of :: "('a \<times> 'b) list \<Rightarrow> ('a \<times> 'b) list" where
  "dict_of items = foldl (\<lambda>d (k, v). AList.update k v d) [] items"

text \<open>
  The values of \<open>query_params\<close> that this module looks at are those under
  \<open>start\<close> and \<open>end\<close>, which the source annotates \<open>datetime | None\<close>.
  \<open>query_params.pop(key, None)\<close> returns the value, or \<open>None\<close> for a missing key,
  and removes the key.
\<close>

datatype pval = DateTime timestamp | NoneVal

type_synonym params = "(string \<times> pval) list"

type_synonym options = "(string \<times> string) list"

definition dict_pop :: "string \<Rightarrow> params \<Rightarrow> pval \<times> params" where
  "dict_pop key d =
     (case map_of d key of None \<Rightarrow> (NoneVal, d) | Some v \<Rightarrow> (v, AList.delete key d))"

fun truthy :: "pval \<Rightarrow> bool" where
  "truthy (DateTime t) = True"
| "truthy NoneVal = False"

text \<open>
  The split unit is a Python \<open>str\<close>: the list of its Unicode code points.
  \<open>str.strip\<close> removes from both ends the code points that \<open>str.isspace\<close>
  accepts; \<open>H\<close> is the code point 0x48 and \<open>h\<close> is 0x68.
\<close>

type_synonym pystr = "nat list"

definition str :: "string \<Rightarrow> pystr" where
  "str s = map of_char s"

definition is_space :: "nat \<Rightarrow> bool" where
  "is_space c = (c \<in> set [0x09, 0x0A, 0x0B, 0x0C, 0x0D, 0x1C, 0x1D, 0x1E, 0x1F, 0x20,
                           0x85, 0xA0, 0x1680, 0x2000, 0x2001, 0x2002, 0x2003, 0x2004,
                           0x2005, 0x2006, 0x2007, 0x2008, 0x2009, 0x200A, 0x2028, 0x2029,
                           0x202F, 0x205F, 0x3000])"

definition strip :: "pystr \<Rightarrow> pystr" where
  "strip s = rev (dropWhile is_space (rev (dropWhile is_space s)))"

definition endswith_H :: "pystr \<Rightarrow> bool" where
  "endswith_H s = (s \<noteq> [] \<and> last s = 0x48)"

definition replace_H :: "pystr \<Rightarrow> pystr" where
  "replace_H s = map (\<lambda>c. if c = 0x48 then 0x68 else c) s"

text \<open>\<open>str.join\<close> on the texts of the transcript.\<close>

fun join :: "string \<Rightarrow> string list \<Rightarrow> string" where
  "join sep [] = []"
| "join sep [x] = x"
| "join sep (x # y # ys) = x @ sep @ join sep (y # ys)"

text \<open>
  \<open>pd.Timedelta\<close> of a string raises \<open>ValueError\<close>, or returns a duration, or
  returns \<open>NaT\<close> (for the empty string and for the spellings of \<open>NaT\<close>) without
  raising.
\<close>

datatype timedelta_value = Duration timedelta | NaT

text \<open>
  What the module takes from its collaborators: \<open>pd.Timedelta\<close> on a string
  (\<open>None\<close> where it raises \<open>ValueError\<close>), the query source's \<open>create_query\<close>,
  \<open>str\<close> of a timestamp, \<open>_get_query_options\<close>, the task that \<open>exec_query\<close>
  makes of a query text, a time span and the options, and the driver properties
  \<open>SUPPORTS_THREADING\<close> and \<open>MAX_PARALLEL\<close>.
\<close>

record 'r provider =
  parse_timedelta :: "pystr \<Rightarrow> timedelta_value option"
  create_query :: "timestamp \<Rightarrow> timestamp \<Rightarrow> params \<Rightarrow> string"
  show_datetime :: "timestamp \<Rightarrow> string"
  get_query_options :: "params \<Rightarrow> options \<Rightarrow> options"
  exec_query :: "string \<Rightarrow> timestamp \<times> timestamp \<Rightarrow> options \<Rightarrow> 'r query_task"
  supports_threading :: bool
  max_parallel :: nat

text \<open>
  The \<open>try\<close> block of \<open>_create_split_queries\<close>: a \<open>ValueError\<close> of
  \<open>pd.Timedelta\<close> is caught and \<open>pd.Timedelta("1D")\<close> is used. A \<open>NaT\<close> that
  \<open>pd.Timedelta\<close> returns is not an exception and stays the split delta.
\<close>

definition split_delta_of :: "(pystr \<Rightarrow> timedelta_value option) \<Rightarrow> pystr \<Rightarrow> timedelta_value" where
  "split_delta_of parse split_by =
     (case parse (if endswith_H (strip split_by) then replace_H split_by else split_by) of
        Some split_delta \<Rightarrow> split_delta
      | None \<Rightarrow> Duration one_day)"

text \<open>
  \<open>_create_split_queries\<close> hands the split delta to \<open>_calc_split_ranges\<close>, whose
  first statement is \<open>pd.date_range\<close>: on the frequency \<open>NaT\<close> it raises
  \<open>ValueError\<close>, outside the \<open>try\<close> block, and on a duration the ranges are those
  of \<open>calc_split_ranges\<close>.
\<close>

definition create_split_queries ::
  "'r provider \<Rightarrow> params \<Rightarrow> timestamp \<Rightarrow> timestamp \<Rightarrow> pystr \<Rightarrow>
     exc + ((timestamp \<times> timestamp) \<times> string) list" where
  "create_split_queries p query_params start end split_by =
     (case (case split_delta_of (parse_timedelta p) split_by of
              NaT \<Rightarrow> Inl ValueError
            | Duration split_delta \<Rightarrow> calc_split_ranges start end split_delta) of
        Inl e \<Rightarrow> Inl e
      | Inr ranges \<Rightarrow>
          Inr (dict_of (map (\<lambda>(q_start, q_end).
                 ((q_start, q_end), create_query p q_start q_end query_params)) ranges)))"

definition create_split_query_tasks ::
  "'r provider \<Rightarrow> params \<Rightarrow> ((timestamp \<times> timestamp) \<times> string) list \<Rightarrow> options \<Rightarrow>
     (string, 'r) query_tasks" where
  "create_split_query_tasks p query_params split_queries kwargs =
     (let query_options = AList.delete ''time_span'' (get_query_options p query_params kwargs)
      in dict_of (map (\<lambda>((start, end), query_str).
           (show_datetime p start @ ''-'' @ show_datetime p end,
            exec_query p query_str (start, end) query_options)) split_queries))"

definition transcript :: "'r provider \<Rightarrow> ((timestamp \<times> timestamp) \<times> string) list \<Rightarrow> string" where
  "transcript p split_queries =
     join [CHR 0x0A, CHR 0x0A]
       (map (\<lambda>((start, end), query).
          show_datetime p start @ ''-'' @ show_datetime p end @ [CHR 0x0A] @ query) split_queries)"

datatype 'r split_result = Frame "'r dataframe" | Transcript string | NoResult

text \<open>
  \<open>_exec_split_query\<close>. The caller's \<open>query_params\<close> is a mutable dictionary: the
  function returns its result together with the dictionary as the call leaves it
  and the world as the call leaves it.
\<close>

definition exec_split_query ::
  "'r provider \<Rightarrow> 'r completion \<Rightarrow> pystr \<Rightarrow> params \<Rightarrow> bool \<Rightarrow> bool \<Rightarrow> bool \<Rightarrow> options \<Rightarrow>
     string world \<Rightarrow> (exc + 'r split_result) \<times> params \<times> string world" where
  "exec_split_query p completion split_by query_params progress retry_on_error debug kwargs w =
     (case dict_pop ''start'' query_params of
        (start, params1) \<Rightarrow>
     (case dict_pop ''end'' params1 of
        (end, params2) \<Rightarrow>
     (case (start, end) of
        (DateTime start_time, DateTime end_time) \<Rightarrow>
          (case create_split_queries p params2 start_time end_time split_by of
             Inl e \<Rightarrow> (Inl e, params2, w)
           | Inr split_queries \<Rightarrow>
               if debug then (Inr (Transcript (transcript p split_queries)), params2, w)
               else
                 (let query_tasks = create_split_query_tasks p params2 split_queries kwargs
                  in case (if supports_threading p
                           then exec_queries_threaded completion query_tasks progress
                                  retry_on_error w
                           else exec_synchronous_queries progress query_tasks w) of
                       (Inl e, w') \<Rightarrow> (Inl e, params2, w')
                     | (Inr df, w') \<Rightarrow> (Inr (Frame df), params2, w')))
      | _ \<Rightarrow> (Inr NoResult, params2, log_msg Warning_cannot_split w))))"

subsection \<open>The aggregate the specification describes\<close>

text \<open>
  The specification's aggregate of a batch: the results of the tasks that
  succeeded, each paired with the identifier of its own task, ordered by
  ascending identifier and concatenated.
\<close>

definition successes :: "('k \<times> 'r outcome) list \<Rightarrow> ('k \<times> 'r dataframe) list" where
  "successes outcomes =
     concat (map (\<lambda>(k, out). case out of Returns df \<Rightarrow> [(k, df)] | Raises e \<Rightarrow> []) outcomes)"

definition ordered_aggregate :: "('k::linorder \<times> 'r outcome) list \<Rightarrow> 'r dataframe" where
  "ordered_aggregate outcomes =
     pd_concat_ignore_index (map snd (sort_key fst (successes outcomes)))"

subsection \<open>Concrete batches\<close>

definition world0 :: "string world" where
  "world0 = \<lparr>calls = (\<lambda>query_id. 0), logged = []\<rparr>"

definition batch_ab :: "(string, nat) query_tasks" where
  "batch_ab = [(''a'', \<lambda>n. Returns [(0, 1)]), (''b'', \<lambda>n. Returns [(0, 2)])]"

definition batch_flaky :: "(string, nat) query_tasks" where
  "batch_flaky = [(''a'', \<lambda>n. Returns [(0, 1)]),
                  (''b'', \<lambda>n. if n = 0 then Raises RuntimeError else Returns [(0, 2)])]"

definition batch_failing_b :: "(string, nat) query_tasks" where
  "batch_failing_b =
     [(''a'', \<lambda>n. Returns [(0, 1)]), (''b'', \<lambda>n. Raises MsticpyDataQueryError)]"

subsection \<open>The ranges the splitter builds\<close>

text \<open>
  The first \<open>n\<close> chunks of length \<open>delta\<close> from \<open>start\<close>, each ending one
  nanosecond before the next begins.
\<close>

definition chunks :: "timestamp \<Rightarrow> timedelta \<Rightarrow> nat \<Rightarrow> (timestamp \<times> timestamp) list" where
  "chunks start delta n = map (\<lambda>k. (start + int k * delta, start + int (Suc k) * delta - one_ns)) [0..<n]"

subsection \<open>A concrete provider\<close>

text \<open>
  A provider whose \<open>pd.Timedelta\<close> understands \<open>1D\<close> and \<open>1h\<close>, returns
  \<open>NaT\<close> for the empty string and for \<open>NaT\<close> and raises \<open>ValueError\<close> on
  everything else, whose queries all read \<open>q\<close> and whose driver returns one row.
\<close>

definition provider1 :: "nat provider" where
  "provider1 =
     \<lparr>parse_timedelta =
        (\<lambda>s. if s = str ''1D'' then Some (Duration one_day)
             else if s = str ''1h'' then Some (Duration one_hour)
             else if s = [] \<or> s = str ''NaT'' then Some NaT
             else None),
      create_query = (\<lambda>q_start q_end query_params. ''q''),
      show_datetime = (\<lambda>t. if t = 0 then ''t0'' else ''t1''),
      get_query_options = (\<lambda>query_params kwargs. kwargs),
      exec_query = (\<lambda>query time_span query_options n. Returns [(0, 7)]),
      supports_threading = True,
      max_parallel = 4\<rparr>"

definition params1 :: params where
  "params1 = [(''table'', NoneVal), (''start'', DateTime 0), (''end'', DateTime (2 * one_day))]"

subsection \<open>Outcomes of a batch\<close>

text \<open>
  Whether an outcome is an exception, the frame of an outcome that is none, the
  outcome that each task of a batch gives on its next call, and the frames of
  those outcomes in insertion order.
\<close>

fun raises :: "'r outcome \<Rightarrow> bool" where
  "raises (Raises e) = True"
| "raises (Returns df) = False"

fun frame_of :: "'r outcome \<Rightarrow> 'r dataframe" where
  "frame_of (Returns df) = df"
| "frame_of (Raises e) = []"

definition next_outcomes :: "('k, 'r) query_tasks \<Rightarrow> 'k world \<Rightarrow> ('k \<times> 'r outcome) list" where
  "next_outcomes query_tasks w = map (\<lambda>(k, f). (k, f (calls w k))) query_tasks"

definition groups_of :: "('k, 'r) query_tasks \<Rightarrow> 'k world \<Rightarrow> 'r dataframe list" where
  "groups_of query_tasks w = map (frame_of \<circ> snd) (next_outcomes query_tasks w)"

text \<open>A batch in which every task fails, and one whose task raises an unrecognised exception.\<close>

definition batch_all_fail :: "(string, nat) query_tasks" where
  "batch_all_fail =
     [(''a'', \<lambda>n. Raises MsticpyDataQueryError), (''b'', \<lambda>n. Raises MsticpyDataQueryError)]"

definition batch_crash :: "(string, nat) query_tasks" where
  "batch_crash = [(''a'', \<lambda>n. Raises RuntimeError)]"

section \<open>Properties\<close>

lemmas run_defs = thread_pass_def call_task_def log_msg_def as_completed_def tqdm_def
  merge_results_def pd_concat_ignore_index_def pd_concat_def rows_of_def df_empty_def
  empty_frame_def

subsection \<open>The time-range splitter\<close>

text \<open>
  Where the chunk is no longer than the window the splitter returns ranges that
  cover the window exactly.
\<close>

lemma contiguous_snoc:
  "contiguous (rs @ [r]) \<longleftrightarrow>
     contiguous rs \<and> fst r \<le> snd r \<and> (rs \<noteq> [] \<longrightarrow> fst r = snd (last rs) + one_ns)"
  by (induction rs rule: contiguous.induct) auto

lemma chunks_Suc:
  "chunks start delta (Suc n) =
     chunks start delta n @ [(start + int n * delta, start + int (Suc n) * delta - one_ns)]"
  by (simp add: chunks_def)

lemma chunks_eq_Nil [simp]: "chunks start delta n = [] \<longleftrightarrow> n = 0"
  by (simp add: chunks_def)

lemma chunks_0 [simp]: "chunks start delta 0 = []"
  by (simp add: chunks_def)

lemma last_chunks:
  "0 < n \<Longrightarrow> last (chunks start delta n) = (start + int (n - 1) * delta, start + int n * delta - one_ns)"
  by (cases n) (simp_all add: chunks_Suc)

lemma hd_chunks:
  "0 < n \<Longrightarrow> fst (hd (chunks start delta n)) = start"
  by (simp add: chunks_def hd_map upt_conv_Cons)

lemma contiguous_chunks:
  "0 < delta \<Longrightarrow> contiguous (chunks start delta n)"
proof (induction n)
  case 0
  then show ?case by (simp add: chunks_def)
next
  case (Suc n)
  then show ?case
    by (cases "n = 0") (auto simp add: chunks_Suc contiguous_snoc last_chunks one_ns_def algebra_simps)
qed

lemma zip_instants:
  "map (\<lambda>(s_time, e_time). (s_time, e_time - one_ns))
     (zip (map (\<lambda>k. start + int k * delta) [0..<Suc n]) (tl (map (\<lambda>k. start + int k * delta) [0..<Suc n])))
   = chunks start delta n"
proof -
  have tl_eq: "tl (map (\<lambda>k. start + int k * delta) [0..<Suc n]) = map (\<lambda>k. start + int (Suc k) * delta) [0..<n]"
    by (simp add: map_tl [symmetric] del: upt_Suc) (simp add: map_Suc_upt [symmetric] del: upt_Suc)
  have "zip (map (\<lambda>k. start + int k * delta) [0..<Suc n]) (map (\<lambda>k. start + int (Suc k) * delta) [0..<n])
      = map (\<lambda>k. (start + int k * delta, start + int (Suc k) * delta)) [0..<n]"
    by (induction n) (simp_all add: zip_append1)
  with tl_eq show ?thesis by (simp add: chunks_def)
qed

lemma calc_split_ranges_chunks:
  assumes "0 < delta" "start \<le> end"
  shows "calc_split_ranges start end delta =
    (let n = nat ((end - start) div delta); ranges = chunks start delta n in
     if n = 0 then Inl IndexError
     else if end - (start + int n * delta - one_ns) < timedelta_div delta 1000
       then Inr (chunks start delta (n - 1) @ [(start + int (n - 1) * delta, end)])
       else Inr (ranges @ [(start + int n * delta, end)]))"
proof -
  let ?n = "nat ((end - start) div delta)"
  have dr: "date_range start end delta = Inr (map (\<lambda>k. start + int k * delta) [0..<Suc ?n])"
    using assms by (simp add: date_range_def)
  show ?thesis
  proof (cases "?n = 0")
    case True
    then show ?thesis using assms
      by (simp add: calc_split_ranges_def dr zip_instants Let_def del: upt_Suc)
  next
    case False
    then obtain m where m: "?n = Suc m" by (cases ?n) auto
    show ?thesis using assms False
      apply (simp add: calc_split_ranges_def dr zip_instants Let_def last_chunks del: upt_Suc)
      apply (simp add: m chunks_Suc one_ns_def)
      done
  qed
qed

lemma calc_split_ranges_covers:
  assumes "0 < delta" "delta \<le> end - start"
  shows "\<exists>ranges. calc_split_ranges start end delta = Inr ranges \<and> covers start end ranges"
proof -
  let ?n = "nat ((end - start) div delta)"
  have le: "start \<le> end" using assms by simp
  have "0 < (end - start) div delta"
    using assms by (simp add: pos_imp_zdiv_pos_iff)
  then have n: "0 < ?n" by simp
  then obtain m where m: "?n = Suc m" by (cases ?n) auto
  have "(end - start) div delta * delta = (end - start) - (end - start) mod delta"
    by (simp add: minus_mod_eq_div_mult)
  moreover have "0 \<le> (end - start) mod delta"
    using assms(1) by simp
  ultimately have "int ?n * delta \<le> end - start"
    using \<open>0 < (end - start) div delta\<close> by simp
  then have bound: "start + int ?n * delta \<le> end" by simp
  have bound': "start + int m * delta \<le> end"
    using bound assms(1) by (simp add: m algebra_simps)
  show ?thesis
  proof (cases "end - (start + int ?n * delta - one_ns) < timedelta_div delta 1000")
    case True
    then have "calc_split_ranges start end delta = Inr (chunks start delta m @ [(start + int m * delta, end)])"
      using n by (simp add: calc_split_ranges_chunks [OF assms(1) le] Let_def m)
    moreover have "covers start end (chunks start delta m @ [(start + int m * delta, end)])"
      using assms(1) bound'
      by (cases "m = 0")
        (auto simp add: covers_def contiguous_snoc contiguous_chunks last_chunks hd_append hd_chunks one_ns_def algebra_simps)
    ultimately show ?thesis by blast
  next
    case False
    then have "calc_split_ranges start end delta = Inr (chunks start delta ?n @ [(start + int ?n * delta, end)])"
      using n by (simp add: calc_split_ranges_chunks [OF assms(1) le] Let_def)
    moreover have "covers start end (chunks start delta ?n @ [(start + int ?n * delta, end)])"
      using assms(1) bound n
      by (auto simp add: covers_def contiguous_snoc contiguous_chunks last_chunks hd_append hd_chunks one_ns_def)
    ultimately show ?thesis by blast
  qed
qed

text \<open>
  A window shorter than the chunk makes the splitter raise; a window of exactly
  one chunk gives the single range when a thousandth of the chunk is more than a
  nanosecond, as it is for the chunk of one day.
\<close>

lemma splitter_short_window_raises:
  "0 < delta \<Longrightarrow> start \<le> end \<Longrightarrow> end - start < delta \<Longrightarrow>
     calc_split_ranges start end delta = Inl IndexError"
  by (simp add: calc_split_ranges_chunks Let_def div_pos_pos_trivial)

lemma splitter_exact_window:
  "0 < delta \<Longrightarrow> one_ns < timedelta_div delta 1000 \<Longrightarrow>
     calc_split_ranges start (start + delta) delta = Inr [(start, start + delta)]"
  by (simp add: calc_split_ranges_chunks Let_def one_ns_def)

lemma timedelta_div_one_day: "timedelta_div one_day 1000 = 86400000000"
  by code_simp

lemma splitter_exact_day:
  "calc_split_ranges start (start + one_day) one_day = Inr [(start, start + one_day)]"
  by (rule splitter_exact_window) (simp_all add: timedelta_div_one_day one_ns_def, simp add: one_day_def)

text \<open>
  C2. The claim: for every \<open>start < end\<close> and every parsable chunk duration the
  ranges returned are ordered, contiguous and non-overlapping, begin at \<open>start\<close>
  and end at \<open>end\<close>. The code returns no ranges at all when the chunk is longer
  than the window: for the window of one hour from instant 0 and a chunk of one
  day, \<open>date_range\<close> holds the single instant 0, no pair of instants exists, and
  \<open>ranges[-1]\<close> raises \<open>IndexError\<close>.
\<close>

theorem split_ranges_hour_window_day_chunk_raises:
  "(0::int) < one_hour \<and> calc_split_ranges 0 one_hour one_day = Inl IndexError"
  by (simp add: calc_split_ranges_def date_range_def one_hour_def one_day_def)

text \<open>
  C3. The claim: for a chunk duration of at least \<open>end - start\<close> exactly one range
  is returned, from \<open>start\<close> to \<open>end\<close>. For the twelve hours from
  2024-01-01T00:00:00 and a chunk of one day the code raises \<open>IndexError\<close>
  where the claim promises the single range.
\<close>

theorem split_ranges_chunk_longer_than_window_raises:
  "(1704067200000000000 + 12 * one_hour) - 1704067200000000000 \<le> one_day \<and>
   calc_split_ranges 1704067200000000000 (1704067200000000000 + 12 * one_hour) one_day
     = Inl IndexError"
  by (simp add: calc_split_ranges_def date_range_def one_hour_def one_day_def)

subsection \<open>What the executors compute\<close>

text \<open>
  With distinct keys every task of a batch is called once by \<open>submit_all\<close>, on its
  own call count.
\<close>

lemma submit_all_Cons:
  "submit_all ((k, f) # rest) w =
     ((k, f (calls w k)) # fst (submit_all rest (w\<lparr>calls := (calls w)(k := Suc (calls w k))\<rparr>)),
      snd (submit_all rest (w\<lparr>calls := (calls w)(k := Suc (calls w k))\<rparr>)))"
  by (simp add: call_task_def split: prod.splits)

lemma submit_all_keys: "map fst (fst (submit_all query_tasks w)) = map fst query_tasks"
  by (induction query_tasks arbitrary: w) (auto simp add: submit_all_Cons simp del: submit_all.simps(2))

lemma submit_all_logged: "logged (snd (submit_all query_tasks w)) = logged w"
  by (induction query_tasks arbitrary: w) (auto simp add: submit_all_Cons simp del: submit_all.simps(2))

lemma submit_all_calls_other:
  "k \<notin> fst ` set query_tasks \<Longrightarrow> calls (snd (submit_all query_tasks w)) k = calls w k"
  by (induction query_tasks arbitrary: w) (auto simp add: submit_all_Cons simp del: submit_all.simps(2))

lemma submit_all_calls:
  "distinct (map fst query_tasks) \<Longrightarrow> k \<in> fst ` set query_tasks \<Longrightarrow>
     calls (snd (submit_all query_tasks w)) k = Suc (calls w k)"
proof (induction query_tasks arbitrary: w)
  case Nil
  then show ?case by simp
next
  case (Cons t ts)
  obtain k' f where t: "t = (k', f)" by (cases t)
  show ?case
  proof (cases "k = k'")
    case True
    with Cons.prems t have "k \<notin> fst ` set ts" by auto
    then show ?thesis using True t
      by (simp add: submit_all_Cons submit_all_calls_other del: submit_all.simps(2))
  next
    case False
    with Cons.prems t have "k \<in> fst ` set ts" "distinct (map fst ts)" by auto
    then show ?thesis using False t Cons.IH
      by (simp add: submit_all_Cons del: submit_all.simps(2))
  qed
qed

lemma submit_all_outcomes:
  "distinct (map fst query_tasks) \<Longrightarrow> fst (submit_all query_tasks w) = next_outcomes query_tasks w"
proof (induction query_tasks arbitrary: w)
  case Nil
  then show ?case by (simp add: next_outcomes_def)
next
  case (Cons t ts)
  obtain k f where t: "t = (k, f)" by (cases t)
  let ?w = "w\<lparr>calls := (calls w)(k := Suc (calls w k))\<rparr>"
  from Cons.prems t have notin: "k \<notin> fst ` set ts" and d: "distinct (map fst ts)" by auto
  have "next_outcomes ts ?w = next_outcomes ts w"
    unfolding next_outcomes_def using notin by (intro map_cong) (auto simp add: image_iff)
  with Cons.IH [OF d, of ?w] show ?case
    using t by (simp add: submit_all_Cons next_outcomes_def del: submit_all.simps(2))
qed

lemma await_loop_calls: "calls (snd (snd (await_loop xs results failed w))) = calls w"
  by (induction xs arbitrary: results failed w) (auto simp add: log_msg_def split: outcome.splits)

lemma await_loop_all_raise:
  "\<forall>x \<in> set xs. raises (snd x) \<Longrightarrow>
     fst (await_loop xs results failed w) = results \<and>
     fst (snd (await_loop xs results failed w)) = failed @ map fst xs"
proof (induction xs arbitrary: results failed w)
  case Nil
  then show ?case by simp
next
  case (Cons x xs)
  obtain k out where x: "x = (k, out)" by (cases x)
  with Cons.prems obtain e where "out = Raises e" by (cases out) auto
  with Cons x show ?case by simp
qed

lemma await_loop_all_return:
  "\<forall>x \<in> set xs. \<not> raises (snd x) \<Longrightarrow>
     fst (await_loop xs results failed w) = results @ map (frame_of \<circ> snd) xs \<and>
     fst (snd (await_loop xs results failed w)) = failed"
proof (induction xs arbitrary: results failed w)
  case Nil
  then show ?case by simp
next
  case (Cons x xs)
  obtain k out where x: "x = (k, out)" by (cases x)
  with Cons.prems obtain df where "out = Returns df" by (cases out) auto
  with Cons x show ?case by simp
qed

lemma select_tasks_all:
  "distinct (map fst query_tasks) \<Longrightarrow> select_tasks query_tasks (map fst query_tasks) = Inr query_tasks"
proof -
  have "set ts \<subseteq> set query_tasks \<Longrightarrow> distinct (map fst query_tasks) \<Longrightarrow>
      select_tasks query_tasks (map fst ts) = Inr ts" for ts
  proof (induction ts)
    case Nil
    then show ?case by simp
  next
    case (Cons t ts)
    obtain k f where t: "t = (k, f)" by (cases t)
    with Cons.prems have m: "map_of query_tasks k = Some f" by simp
    from Cons t show ?case by (simp add: m)
  qed
  then show "distinct (map fst query_tasks) \<Longrightarrow> ?thesis" by simp
qed

lemma permuting_set: "permuting completion \<Longrightarrow> set (completion futures) = set futures"
  unfolding permuting_def by (metis set_mset_mset)

lemma permuting_length: "permuting completion \<Longrightarrow> length (completion futures) = length futures"
  unfolding permuting_def by (metis size_mset)

lemma next_outcomes_log [simp]: "next_outcomes query_tasks (log_msg m w) = next_outcomes query_tasks w"
  by (simp add: next_outcomes_def log_msg_def)

lemma next_outcomes_keys [simp]: "map fst (next_outcomes query_tasks w) = map fst query_tasks"
  by (simp add: next_outcomes_def case_prod_unfold)

lemma thread_pass_unfold:
  assumes "distinct (map fst query_tasks)"
  shows "thread_pass completion query_tasks progress w =
    (let awaited = await_loop (zip (map fst query_tasks)
                      (completion (map snd (next_outcomes query_tasks w)))) [] []
                      (snd (submit_all query_tasks
                         (log_msg (Info_running_threaded (length query_tasks)) w)))
     in (map snd (sort_key fst (zip (map fst query_tasks) (fst awaited))),
         fst (snd awaited), snd (snd awaited)))"
proof -
  let ?w = "log_msg (Info_running_threaded (length query_tasks)) w"
  have "fst (submit_all query_tasks ?w) = next_outcomes query_tasks w"
    using submit_all_outcomes [OF assms, of ?w] by simp
  then show ?thesis
    by (simp add: thread_pass_def as_completed_def tqdm_def Let_def case_prod_unfold)
qed

lemma thread_pass_calls:
  assumes "distinct (map fst query_tasks)"
  shows "calls (snd (snd (thread_pass completion query_tasks progress w))) k =
    (if k \<in> fst ` set query_tasks then Suc (calls w k) else calls w k)"
  using submit_all_calls [OF assms, of k "log_msg (Info_running_threaded (length query_tasks)) w"]
    submit_all_calls_other [of k query_tasks "log_msg (Info_running_threaded (length query_tasks)) w"]
  by (simp add: thread_pass_unfold [OF assms] Let_def await_loop_calls log_msg_def)

lemma thread_pass_all_raise:
  assumes d: "distinct (map fst query_tasks)" and p: "permuting completion"
    and r: "\<forall>(k, f) \<in> set query_tasks. raises (f (calls w k))"
  shows "fst (thread_pass completion query_tasks progress w) = []"
    and "fst (snd (thread_pass completion query_tasks progress w)) = map fst query_tasks"
proof -
  let ?outs = "map snd (next_outcomes query_tasks w)"
  let ?zs = "zip (map fst query_tasks) (completion ?outs)"
  have "\<forall>out \<in> set ?outs. raises out"
    using r by (auto simp add: next_outcomes_def)
  then have "\<forall>out \<in> set (completion ?outs). raises out"
    by (simp add: permuting_set [OF p])
  then have all: "\<forall>x \<in> set ?zs. raises (snd x)"
    by (auto dest: set_zip_rightD)
  have len: "length (completion ?outs) = length query_tasks"
    by (simp add: permuting_length [OF p] next_outcomes_def)
  have keys: "map fst ?zs = map fst query_tasks"
    by (simp add: len)
  from await_loop_all_raise [OF all, of "[]" "[]"] keys
  show "fst (thread_pass completion query_tasks progress w) = []"
    and "fst (snd (thread_pass completion query_tasks progress w)) = map fst query_tasks"
    by (simp_all add: thread_pass_unfold [OF d] Let_def)
qed

lemma threaded_all_raise_no_retry:
  assumes "distinct (map fst query_tasks)" "permuting completion"
    and "\<forall>(k, f) \<in> set query_tasks. raises (f (calls w k))"
  shows "fst (exec_queries_threaded completion query_tasks progress False w) = Inr empty_frame"
  using thread_pass_all_raise(1) [OF assms, of progress]
  by (simp add: merge_results_def case_prod_unfold)

lemma sync_loop_all_recognised:
  "distinct (map fst query_tasks) \<Longrightarrow>
   \<forall>(k, f) \<in> set query_tasks. f (calls w k) = Raises MsticpyDataQueryError \<Longrightarrow>
   fst (sync_loop query_tasks results w) = Inr results"
proof (induction query_tasks arbitrary: w)
  case Nil
  then show ?case by simp
next
  case (Cons t ts)
  obtain k f where t: "t = (k, f)" by (cases t)
  let ?w = "log_msg (Info_query_failed k) (w\<lparr>calls := (calls w)(k := Suc (calls w k))\<rparr>)"
  from Cons.prems t have "k \<notin> fst ` set ts" by auto
  then have "\<forall>(k', f') \<in> set ts. calls ?w k' = calls w k'"
    by (auto simp add: log_msg_def image_iff)
  moreover from Cons.prems t
  have "\<forall>(k', f') \<in> set ts. f' (calls w k') = Raises MsticpyDataQueryError"
    by auto
  ultimately have "\<forall>(k', f') \<in> set ts. f' (calls ?w k') = Raises MsticpyDataQueryError"
    by fastforce
  with Cons.IH [of ?w] Cons.prems t show ?case
    by (simp add: call_task_def)
qed

lemma sync_loop_all_return:
  "distinct (map fst query_tasks) \<Longrightarrow>
   \<forall>(k, f) \<in> set query_tasks. \<not> raises (f (calls w k)) \<Longrightarrow>
   fst (sync_loop query_tasks results w) = Inr (results @ groups_of query_tasks w)"
proof (induction query_tasks arbitrary: w results)
  case Nil
  then show ?case by (simp add: groups_of_def next_outcomes_def)
next
  case (Cons t ts)
  obtain k f where t: "t = (k, f)" by (cases t)
  let ?w = "w\<lparr>calls := (calls w)(k := Suc (calls w k))\<rparr>"
  from Cons.prems t obtain df where df: "f (calls w k) = Returns df"
    by (cases "f (calls w k)") auto
  from Cons.prems t have notin: "k \<notin> fst ` set ts" by auto
  then have same: "\<forall>(k', f') \<in> set ts. calls ?w k' = calls w k'"
    by (auto simp add: image_iff)
  moreover from Cons.prems t have "\<forall>(k', f') \<in> set ts. \<not> raises (f' (calls w k'))"
    by auto
  ultimately have ok: "\<forall>(k', f') \<in> set ts. \<not> raises (f' (calls ?w k'))"
    by fastforce
  have "groups_of ts ?w = groups_of ts w"
    unfolding groups_of_def next_outcomes_def using same by (auto intro!: map_cong)
  with Cons.IH [of ?w "results @ [df]"] ok Cons.prems t df show ?case
    by (simp add: call_task_def groups_of_def next_outcomes_def)
qed

lemma threaded_all_raise:
  assumes d: "distinct (map fst query_tasks)" and p: "permuting completion"
    and r: "\<forall>(k, f) \<in> set query_tasks. raises (f (calls w k)) \<and> (retry \<longrightarrow> raises (f (Suc (calls w k))))"
  shows "fst (exec_queries_threaded completion query_tasks progress retry w) = Inr empty_frame"
proof (cases "retry \<and> query_tasks \<noteq> []")
  case False
  have r1: "\<forall>(k, f) \<in> set query_tasks. raises (f (calls w k))" using r by auto
  show ?thesis
    using False thread_pass_all_raise [OF d p r1, of progress]
    by (subst exec_queries_threaded.simps)
      (auto simp add: merge_results_def case_prod_unfold simp del: exec_queries_threaded.simps)
next
  case True
  have r1: "\<forall>(k, f) \<in> set query_tasks. raises (f (calls w k))" using r by auto
  let ?pass = "thread_pass completion query_tasks progress w"
  let ?w2 = "snd (snd ?pass)"
  have "\<forall>(k, f) \<in> set query_tasks. raises (f (calls ?w2 k))"
    using r True by (auto simp add: thread_pass_calls [OF d] image_iff)
  then have second: "fst (exec_queries_threaded completion query_tasks progress False ?w2) = Inr empty_frame"
    by (rule threaded_all_raise_no_retry [OF d p])
  show ?thesis
    using True thread_pass_all_raise [OF d p r1, of progress] second
    by (subst exec_queries_threaded.simps)
      (auto simp add: merge_results_def case_prod_unfold select_tasks_all [OF d] df_empty_def
        empty_frame_def split: sum.splits simp del: exec_queries_threaded.simps)
qed

lemma sync_all_recognised:
  assumes "distinct (map fst query_tasks)"
    and "\<forall>(k, f) \<in> set query_tasks. f (calls w k) = Raises MsticpyDataQueryError"
  shows "fst (exec_synchronous_queries progress query_tasks w) = Inr empty_frame"
proof -
  have "\<forall>(k, f) \<in> set query_tasks.
      f (calls (log_msg Info_running_sequentially w) k) = Raises MsticpyDataQueryError"
    using assms(2) by (simp add: log_msg_def)
  from sync_loop_all_recognised [OF assms(1) this, of "[]"]
  show ?thesis
    by (auto simp add: exec_synchronous_queries_def tqdm_def split: prod.splits sum.splits)
qed

lemma rows_of_ignore_index: "rows_of (pd_concat_ignore_index frames) = rows_of (pd_concat frames)"
  by (simp add: pd_concat_ignore_index_def pd_concat_def rows_of_def Let_def)

lemma merge_results_eq: "fst (merge_results results w) = Inr (pd_concat_ignore_index results)"
  by (simp add: merge_results_def pd_concat_ignore_index_def empty_frame_def rows_of_def)

lemma thread_pass_all_return:
  assumes d: "distinct (map fst query_tasks)" and p: "permuting completion"
    and r: "\<forall>(k, f) \<in> set query_tasks. \<not> raises (f (calls w k))"
  shows "fst (thread_pass completion query_tasks progress w) =
           map snd (sort_key fst (zip (map fst query_tasks)
             (map frame_of (completion (map snd (next_outcomes query_tasks w))))))"
    and "fst (snd (thread_pass completion query_tasks progress w)) = []"
proof -
  let ?outs = "map snd (next_outcomes query_tasks w)"
  let ?zs = "zip (map fst query_tasks) (completion ?outs)"
  have "\<forall>out \<in> set ?outs. \<not> raises out"
    using r by (auto simp add: next_outcomes_def)
  then have "\<forall>out \<in> set (completion ?outs). \<not> raises out"
    by (simp add: permuting_set [OF p])
  then have all: "\<forall>x \<in> set ?zs. \<not> raises (snd x)"
    by (auto dest: set_zip_rightD)
  have len: "length (completion ?outs) = length query_tasks"
    by (simp add: permuting_length [OF p] next_outcomes_def)
  have "map (frame_of \<circ> snd) ?zs = map frame_of (completion ?outs)"
    by (simp add: len flip: map_map)
  with await_loop_all_return [OF all, of "[]" "[]"]
  show "fst (thread_pass completion query_tasks progress w) =
           map snd (sort_key fst (zip (map fst query_tasks)
             (map frame_of (completion (map snd (next_outcomes query_tasks w))))))"
    and "fst (snd (thread_pass completion query_tasks progress w)) = []"
    by (simp_all add: thread_pass_unfold [OF d] Let_def)
qed

lemma threaded_all_return:
  assumes d: "distinct (map fst query_tasks)" and p: "permuting completion"
    and r: "\<forall>(k, f) \<in> set query_tasks. \<not> raises (f (calls w k))"
  shows "fst (exec_queries_threaded completion query_tasks progress retry w) =
     Inr (pd_concat_ignore_index (map snd (sort_key fst (zip (map fst query_tasks)
             (map frame_of (completion (map snd (next_outcomes query_tasks w))))))))"
  using thread_pass_all_return [OF d p r, of progress]
  by (subst exec_queries_threaded.simps)
    (simp add: case_prod_unfold merge_results_eq del: exec_queries_threaded.simps)

lemma sync_all_return:
  assumes "distinct (map fst query_tasks)"
    and "\<forall>(k, f) \<in> set query_tasks. \<not> raises (f (calls w k))"
  shows "fst (exec_synchronous_queries progress query_tasks w) = Inr (pd_concat (groups_of query_tasks w))"
proof -
  let ?w = "log_msg Info_running_sequentially w"
  have "\<forall>(k, f) \<in> set query_tasks. \<not> raises (f (calls ?w k))"
    using assms(2) by (simp add: log_msg_def)
  from sync_loop_all_return [OF assms(1) this, of "[]"]
  have "fst (sync_loop query_tasks [] ?w) = Inr (groups_of query_tasks w)"
    by (simp add: groups_of_def)
  then show ?thesis
    by (auto simp add: exec_synchronous_queries_def tqdm_def pd_concat_def empty_frame_def
        split: prod.splits sum.splits)
qed

lemma permuting_rev: "permuting rev"
  by (simp add: permuting_def)

lemma permuting_id: "permuting id"
  by (simp add: permuting_def)

text \<open>
  The parallel executor returns a frame whatever the tasks do; the sequential
  executor skips a task that raises \<open>MsticpyDataQueryError\<close> and stops, without
  calling the remaining tasks, at any other exception.
\<close>

lemma await_loop_failed_subset:
  "set (fst (snd (await_loop xs results failed w))) \<subseteq> set failed \<union> fst ` set xs"
proof (induction xs arbitrary: results failed w)
  case Nil
  then show ?case by simp
next
  case (Cons x xs)
  obtain k out where x: "x = (k, out)" by (cases x)
  show ?case
  proof (cases out)
    case (Returns df)
    with x Cons.IH [of "results @ [df]" failed "log_msg (Info_task_completed k) w"]
    show ?thesis by auto
  next
    case (Raises e)
    with x Cons.IH [of results "failed @ [k]" "log_msg (Warning_task_failed k) w"]
    show ?thesis by auto
  qed
qed

lemma thread_pass_failed_subset:
  "set (fst (snd (thread_pass completion query_tasks progress w))) \<subseteq> fst ` set query_tasks"
proof -
  let ?w = "log_msg (Info_running_threaded (length query_tasks)) w"
  let ?futures = "fst (submit_all query_tasks ?w)"
  let ?zs = "zip (map fst ?futures) (completion (map snd ?futures))"
  have "fst ` set ?zs \<subseteq> set (map fst ?futures)"
    by (auto dest: set_zip_leftD)
  also have "\<dots> = fst ` set query_tasks"
    by (simp add: submit_all_keys)
  finally have "fst ` set ?zs \<subseteq> fst ` set query_tasks" .
  with await_loop_failed_subset [of ?zs "[]" "[]" "snd (submit_all query_tasks ?w)"]
  show ?thesis
    by (auto simp add: thread_pass_def as_completed_def tqdm_def Let_def case_prod_unfold)
qed

lemma select_tasks_present:
  "set ids \<subseteq> fst ` set query_tasks \<Longrightarrow> \<exists>selected. select_tasks query_tasks ids = Inr selected"
proof (induction ids)
  case Nil
  then show ?case by simp
next
  case (Cons k ids)
  then obtain f where "map_of query_tasks k = Some f"
    by (cases "map_of query_tasks k") (auto simp add: map_of_eq_None_iff)
  with Cons show ?case by auto
qed

lemma merge_results_returns: "\<exists>df. fst (merge_results results w) = Inr df"
  by (simp add: merge_results_def)

lemma threaded_never_raises:
  "\<exists>df. fst (exec_queries_threaded completion query_tasks progress retry w) = Inr df"
proof -
  have no_retry: "\<exists>df. fst (exec_queries_threaded completion ts progress False w') = Inr df" for ts w'
    by (subst exec_queries_threaded.simps)
      (simp add: case_prod_unfold merge_results_returns del: exec_queries_threaded.simps)
  obtain results failed w2 where pass: "thread_pass completion query_tasks progress w = (results, failed, w2)"
    by (cases "thread_pass completion query_tasks progress w") auto
  show ?thesis
  proof (cases "retry \<and> failed \<noteq> []")
    case False
    then show ?thesis
      by (subst exec_queries_threaded.simps)
        (auto simp add: pass merge_results_returns simp del: exec_queries_threaded.simps)
  next
    case True
    from thread_pass_failed_subset [of completion query_tasks progress w] pass
    have "set failed \<subseteq> fst ` set query_tasks" by simp
    from select_tasks_present [OF this] obtain selected
      where sel: "select_tasks query_tasks failed = Inr selected" ..
    from no_retry obtain df w3
      where again: "exec_queries_threaded completion selected progress False w2 = (Inr df, w3)"
      by (metis prod.collapse)
    show ?thesis using True
      by (subst exec_queries_threaded.simps)
        (simp add: pass sel again merge_results_returns del: exec_queries_threaded.simps)
  qed
qed

lemma sync_loop_recognised_failure_skipped:
  "query_task (calls w con_name) = Raises MsticpyDataQueryError \<Longrightarrow>
     sync_loop ((con_name, query_task) # rest) results w =
       sync_loop rest results
         (log_msg (Info_query_failed con_name)
            (w\<lparr>calls := (calls w)(con_name := Suc (calls w con_name))\<rparr>))"
  by (simp add: call_task_def)

lemma sync_loop_other_failure_propagates:
  "query_task (calls w con_name) = Raises e \<Longrightarrow> e \<noteq> MsticpyDataQueryError \<Longrightarrow>
     sync_loop ((con_name, query_task) # rest) results w =
       (Inl e, w\<lparr>calls := (calls w)(con_name := Suc (calls w con_name))\<rparr>)"
  by (simp add: call_task_def)

subsection \<open>The parallel executor pairs identifiers with completion order\<close>

text \<open>
  C1. The claim: the aggregate of the parallel executor concatenates the
  successful results by ascending task identifier whatever the completion order,
  so that two runs that differ only in completion order agree. In the code the
  identifiers, in insertion order, are zipped with the results in completion
  order before the sort. For the batch \<open>a\<close>, \<open>b\<close> in which both tasks succeed,
  the run in which \<open>b\<close> finishes first returns the row of \<open>b\<close> before the row of
  \<open>a\<close>; the run in which \<open>a\<close> finishes first returns them the other way round,
  which is the aggregate the specification describes.
\<close>

theorem threaded_aggregate_follows_completion_order:
  "fst (exec_queries_threaded rev batch_ab True False world0) = Inr [(0, 2), (1, 1)] \<and>
   fst (exec_queries_threaded id batch_ab True False world0) = Inr [(0, 1), (1, 2)] \<and>
   ordered_aggregate (fst (submit_all batch_ab world0)) = [(0, 1), (1, 2)]"
  by (simp add: batch_ab_def world0_def run_defs ordered_aggregate_def successes_def)

text \<open>
  C5. The claim: with retry enabled exactly the failed tasks are run once more
  and the results of those that then succeed are appended. For the batch in
  which \<open>a\<close> succeeds and \<open>b\<close> fails once and would succeed on its second call,
  and \<open>b\<close> finishes first, the code records \<open>a\<close> as failed: \<open>a\<close> is called
  twice and its row appears twice in the aggregate, \<open>b\<close> is called once and its
  row never appears.
\<close>

theorem threaded_retry_reruns_wrong_task:
  "fst (exec_queries_threaded rev batch_flaky True True world0) = Inr [(0, 1), (1, 1)] \<and>
   calls (snd (exec_queries_threaded rev batch_flaky True True world0)) ''a'' = 2 \<and>
   calls (snd (exec_queries_threaded rev batch_flaky True True world0)) ''b'' = 1"
  by (simp add: batch_flaky_def world0_def run_defs)

text \<open>
  C7. The claim: in parallel execution an exception of a task is caught, logged
  with that task's identifier and the task is marked failed. For the batch in
  which \<open>a\<close> succeeds and \<open>b\<close> raises, and \<open>b\<close> finishes first, the exception is
  caught and the batch goes on, but the warning names \<open>a\<close> and the success is
  logged for \<open>b\<close>.
\<close>

theorem threaded_failure_logged_under_wrong_identifier:
  "fst (exec_queries_threaded rev batch_failing_b True False world0) = Inr [(0, 1)] \<and>
   logged (snd (exec_queries_threaded rev batch_failing_b True False world0))
     = [Info_running_threaded 2, Warning_task_failed ''a'', Info_task_completed ''b'']"
  by (simp add: batch_failing_b_def world0_def run_defs)

subsection \<open>Total failure\<close>

text \<open>
  C6. The claim: if every task of a batch fails, both executors return an empty
  frame and raise nothing. The sequential executor catches
  \<open>MsticpyDataQueryError\<close> only: the batch whose single task raises
  \<open>RuntimeError\<close> fails as a whole, and the exception reaches the caller.
\<close>

theorem sequential_unrecognised_failure_raises:
  "fst (exec_synchronous_queries True batch_crash world0) = Inl RuntimeError"
  by (simp add: batch_crash_def world0_def exec_synchronous_queries_def tqdm_def call_task_def log_msg_def)

text \<open>
  C6, amended. If every task of a batch raises \<open>MsticpyDataQueryError\<close> on its
  call, the sequential executor returns the empty frame. If every task raises any
  exception on its call and, when retry is enabled, on the call after it, the
  parallel executor returns the empty frame, whatever the completion order.
\<close>

theorem all_tasks_fail_returns_empty_frame:
  assumes "distinct (map fst query_tasks)"
  shows "((\<forall>(k, f) \<in> set query_tasks. f (calls w k) = Raises MsticpyDataQueryError) \<longrightarrow>
            fst (exec_synchronous_queries progress query_tasks w) = Inr empty_frame) \<and>
         (permuting completion \<and>
          (\<forall>(k, f) \<in> set query_tasks.
              raises (f (calls w k)) \<and> (retry \<longrightarrow> raises (f (Suc (calls w k))))) \<longrightarrow>
            fst (exec_queries_threaded completion query_tasks progress retry w) = Inr empty_frame)"
  using sync_all_recognised [OF assms] threaded_all_raise [OF assms] by blast

theorem all_tasks_fail_returns_empty_frame_witness:
  "distinct (map fst batch_all_fail) \<and>
   fst (exec_synchronous_queries True batch_all_fail world0) = Inr empty_frame \<and>
   fst (exec_queries_threaded rev batch_all_fail True True world0) = Inr empty_frame"
proof -
  have d: "distinct (map fst batch_all_fail)"
    by (simp add: batch_all_fail_def)
  have s: "\<forall>(k, f) \<in> set batch_all_fail. f (calls world0 k) = Raises MsticpyDataQueryError"
    by (simp add: batch_all_fail_def)
  have r: "\<forall>(k, f) \<in> set batch_all_fail.
       raises (f (calls world0 k)) \<and> (True \<longrightarrow> raises (f (Suc (calls world0 k))))"
    by (simp add: batch_all_fail_def)
  from all_tasks_fail_returns_empty_frame [OF d, of world0 True rev True] s r permuting_rev d show ?thesis
    by blast
qed

subsection \<open>The two executors on a batch without failures\<close>

text \<open>
  C8. The claim: when no task fails the outputs of the two executors hold the
  same rows grouped by task, and are identical when the identifiers ascend in
  insertion order. For the batch \<open>a\<close>, \<open>b\<close> the sequential output keeps each
  task's row index (0 and 0) while the parallel output numbers the rows afresh
  (0 and 1), also when the tasks complete in insertion order; when \<open>b\<close>
  completes first the parallel output has the rows in the other order as well.
\<close>

theorem executors_outputs_differ_without_failures:
  "distinct (map fst batch_ab) \<and> sorted (map fst batch_ab) \<and>
   fst (exec_synchronous_queries True batch_ab world0) = Inr [(0, 1), (0, 2)] \<and>
   fst (exec_queries_threaded id batch_ab True False world0) = Inr [(0, 1), (1, 2)] \<and>
   fst (exec_queries_threaded rev batch_ab True False world0) = Inr [(0, 2), (1, 1)]"
  by (simp add: batch_ab_def world0_def run_defs exec_synchronous_queries_def)

text \<open>
  C8, amended. When no task fails, the sequential output is the concatenation of
  the tasks' frames in insertion order with their row indices kept, and the
  parallel output is the concatenation, with the rows numbered afresh, of a
  permutation of the same frames. When moreover the identifiers ascend in
  insertion order and the tasks complete in insertion order, the parallel output
  is the concatenation of the frames in insertion order: the two outputs have the
  same rows in the same order.
\<close>

theorem no_failures_same_row_groups:
  assumes "distinct (map fst query_tasks)" and "permuting completion"
    and "\<forall>(k, f) \<in> set query_tasks. \<not> raises (f (calls w k))"
  shows "fst (exec_synchronous_queries progress query_tasks w)
           = Inr (pd_concat (groups_of query_tasks w)) \<and>
         (\<exists>groups. mset groups = mset (groups_of query_tasks w) \<and>
            fst (exec_queries_threaded completion query_tasks progress retry w)
              = Inr (pd_concat_ignore_index groups)) \<and>
         (sorted (map fst query_tasks) \<and>
          completion (map snd (next_outcomes query_tasks w)) = map snd (next_outcomes query_tasks w) \<longrightarrow>
            fst (exec_queries_threaded completion query_tasks progress retry w)
              = Inr (pd_concat_ignore_index (groups_of query_tasks w)) \<and>
            rows_of (pd_concat_ignore_index (groups_of query_tasks w))
              = rows_of (pd_concat (groups_of query_tasks w)))"
proof -
  let ?outs = "map snd (next_outcomes query_tasks w)"
  let ?results = "map frame_of (completion ?outs)"
  let ?sorted = "map snd (sort_key fst (zip (map fst query_tasks) ?results))"
  have len: "length ?results = length (map fst query_tasks)"
    by (simp add: permuting_length [OF assms(2)] next_outcomes_def)
  have par: "fst (exec_queries_threaded completion query_tasks progress retry w)
      = Inr (pd_concat_ignore_index ?sorted)"
    by (rule threaded_all_return [OF assms])
  have "mset ?sorted = mset (map snd (zip (map fst query_tasks) ?results))"
    by (simp only: mset_map mset_sort)
  also have "\<dots> = mset ?results"
    using len by (simp only: map_snd_zip)
  also have "\<dots> = image_mset frame_of (mset ?outs)"
    using assms(2) by (simp add: permuting_def)
  also have "\<dots> = mset (groups_of query_tasks w)"
    by (simp add: groups_of_def multiset.map_comp)
  finally have perm: "mset ?sorted = mset (groups_of query_tasks w)" .
  have same: "?sorted = groups_of query_tasks w"
    if s: "sorted (map fst query_tasks)" and c: "completion ?outs = ?outs"
  proof -
    have "map fst (zip (map fst query_tasks) ?results) = map fst query_tasks"
      using len by (simp only: map_fst_zip)
    with s have "sort_key fst (zip (map fst query_tasks) ?results) = zip (map fst query_tasks) ?results"
      by (simp add: sort_key_id_if_sorted)
    then have "?sorted = ?results" using len by (simp only: map_snd_zip)
    also have "\<dots> = groups_of query_tasks w" by (simp add: c groups_of_def)
    finally show ?thesis .
  qed
  have one: "fst (exec_synchronous_queries progress query_tasks w)
      = Inr (pd_concat (groups_of query_tasks w))"
    by (rule sync_all_return [OF assms(1,3)])
  have two: "\<exists>groups. mset groups = mset (groups_of query_tasks w) \<and>
      fst (exec_queries_threaded completion query_tasks progress retry w)
        = Inr (pd_concat_ignore_index groups)"
    using par perm by blast
  have three: "fst (exec_queries_threaded completion query_tasks progress retry w)
        = Inr (pd_concat_ignore_index (groups_of query_tasks w))"
    if "sorted (map fst query_tasks)" and "completion ?outs = ?outs"
    using par same [OF that] by (simp only:)
  from one two three rows_of_ignore_index [of "groups_of query_tasks w"]
  show ?thesis by blast
qed

theorem no_failures_same_row_groups_witness:
  "distinct (map fst batch_ab) \<and> sorted (map fst batch_ab) \<and>
   fst (exec_synchronous_queries True batch_ab world0) = Inr [(0, 1), (0, 2)] \<and>
   fst (exec_queries_threaded id batch_ab True False world0) = Inr [(0, 1), (1, 2)]"
proof -
  have d: "distinct (map fst batch_ab)" by (simp add: batch_ab_def)
  have r: "\<forall>(k, f) \<in> set batch_ab. \<not> raises (f (calls world0 k))" by (simp add: batch_ab_def)
  have s: "sorted (map fst batch_ab)" by (simp add: batch_ab_def)
  have g: "groups_of batch_ab world0 = [[(0, 1)], [(0, 2)]]"
    by (simp add: groups_of_def next_outcomes_def batch_ab_def)
  have c: "id (map snd (next_outcomes batch_ab world0)) = map snd (next_outcomes batch_ab world0)"
    by simp
  from no_failures_same_row_groups [OF d permuting_id r, of True False] s c
  have "fst (exec_synchronous_queries True batch_ab world0) = Inr (pd_concat (groups_of batch_ab world0))"
    and "fst (exec_queries_threaded id batch_ab True False world0)
           = Inr (pd_concat_ignore_index (groups_of batch_ab world0))"
    by blast+
  then show ?thesis using d r s permuting_id
    by (simp add: g pd_concat_def pd_concat_ignore_index_def rows_of_def)
qed

subsection \<open>Split queries\<close>

lemma upt_0_3: "[0..<3] = [0, 1, 2]"
  by code_simp

lemma snd_dict_pop: "snd (dict_pop key d) = filter (\<lambda>(k, v). k \<noteq> key) d"
proof (cases "map_of d key")
  case None
  then have "key \<notin> fst ` set d" by (simp add: map_of_eq_None_iff)
  then have "filter (\<lambda>(k, v). k \<noteq> key) d = d"
    by (induction d) auto
  with None show ?thesis by (simp add: dict_pop_def)
next
  case (Some v)
  have "(\<lambda>p::string \<times> pval. key \<noteq> fst p) = (\<lambda>p. fst p \<noteq> key)" by auto
  with Some show ?thesis by (simp add: dict_pop_def AList.delete_eq case_prod_unfold)
qed

lemma params_after:
  "fst (snd (exec_split_query p completion split_by query_params progress retry_on_error debug kwargs w))
     = snd (dict_pop ''end'' (snd (dict_pop ''start'' query_params)))"
  by (simp add: exec_split_query_def Let_def split: prod.splits pval.splits sum.splits)

text \<open>
  C10. Every call of \<open>_exec_split_query\<close> leaves the caller's \<open>query_params\<close>
  without the keys \<open>start\<close> and \<open>end\<close> and with every other item as it was, in
  the same order, on every path: the debug transcript, the early return of
  \<open>None\<close>, an exception, and the execution of the tasks.
\<close>

theorem exec_split_query_removes_start_and_end:
  "fst (snd (exec_split_query p completion split_by query_params progress retry_on_error debug kwargs w))
     = filter (\<lambda>(k, v). k \<noteq> ''start'' \<and> k \<noteq> ''end'') query_params \<and>
   map_of (fst (snd (exec_split_query p completion split_by query_params progress retry_on_error debug kwargs w)))
     = (map_of query_params)(''start'' := None, ''end'' := None)"
proof -
  have a: "snd (dict_pop ''end'' (snd (dict_pop ''start'' query_params)))
      = filter (\<lambda>(k, v). k \<noteq> ''start'' \<and> k \<noteq> ''end'') query_params"
    by (simp add: snd_dict_pop case_prod_unfold conj_commute)
  have b: "map_of (filter (\<lambda>(k, v). k \<noteq> ''start'' \<and> k \<noteq> ''end'') query_params)
      = (map_of query_params)(''start'' := None, ''end'' := None)"
    by (induction query_params) (auto simp add: fun_eq_iff)
  show ?thesis by (simp only: params_after a b)
qed

text \<open>
  Where \<open>pd.Timedelta\<close> raises \<open>ValueError\<close> the split delta is one day and the
  split queries are those of a chunk of one day: the \<open>ValueError\<close> of the parser
  does not reach the caller.
\<close>

lemma value_error_gives_one_day:
  assumes "parse_timedelta p (if endswith_H (strip split_by) then replace_H split_by else split_by) = None"
  shows "split_delta_of (parse_timedelta p) split_by = Duration one_day"
    and "create_split_queries p query_params start end split_by =
      (case calc_split_ranges start end one_day of
         Inl e \<Rightarrow> Inl e
       | Inr ranges \<Rightarrow> Inr (dict_of (map (\<lambda>(q_start, q_end).
                 ((q_start, q_end), create_query p q_start q_end query_params)) ranges)))"
  using assms by (simp_all add: split_delta_of_def create_split_queries_def)

lemma value_error_short_window_raises:
  assumes "parse_timedelta p (if endswith_H (strip split_by) then replace_H split_by else split_by) = None"
    and "start \<le> end" and "end - start < one_day"
  shows "create_split_queries p query_params start end split_by = Inl IndexError"
proof -
  have "0 < one_day" by (simp add: one_day_def)
  then have "calc_split_ranges start end one_day = Inl IndexError"
    using assms(2,3) by (rule splitter_short_window_raises)
  then show ?thesis by (simp add: value_error_gives_one_day(2) [OF assms(1)])
qed

lemma nat_split_delta_raises:
  assumes "parse_timedelta p (if endswith_H (strip split_by) then replace_H split_by else split_by) = Some NaT"
  shows "create_split_queries p query_params start end split_by = Inl ValueError"
  using assms by (simp add: split_delta_of_def create_split_queries_def)

text \<open>
  C9. The claim: for every chunk-duration string that cannot be parsed as a valid
  duration the range computation raises nothing to the caller and goes on with
  the default of one day. The code raises in two cases. For the string \<open>soon\<close>,
  on which \<open>pd.Timedelta\<close> raises \<open>ValueError\<close>, the split delta is one day, and
  on the window of one hour from instant 0 \<open>_calc_split_ranges\<close> raises
  \<open>IndexError\<close> to the caller. For the empty string \<open>pd.Timedelta\<close> returns
  \<open>NaT\<close> without raising, the default is not taken, and on the window of two days
  \<open>pd.date_range\<close> raises \<open>ValueError\<close> to the caller.
\<close>

theorem unparsable_split_by_raises:
  "split_delta_of (parse_timedelta provider1) (str ''soon'') = Duration one_day \<and>
   create_split_queries provider1 [] 0 one_hour (str ''soon'') = Inl IndexError \<and>
   split_delta_of (parse_timedelta provider1) [] = NaT \<and>
   create_split_queries provider1 [] 0 (2 * one_day) [] = Inl ValueError"
  by (simp add: create_split_queries_def split_delta_of_def provider1_def str_def endswith_H_def
      strip_def is_space_def calc_split_ranges_def date_range_def one_day_def one_hour_def)

text \<open>
  C4. The claim: a debug call has no side effects, and a second call returns the
  same transcript. The call pops \<open>start\<close> and \<open>end\<close> from the caller's
  dictionary: after the first call, which returns the transcript of two ranges,
  only \<open>table\<close> is left, and the second call on that dictionary returns \<open>None\<close>.
\<close>

theorem debug_split_query_mutates_query_params:
  "fst (exec_split_query provider1 rev (str ''1D'') params1 True False True [] world0)
     = Inr (Transcript (''t0-t1'' @ [CHR 0x0A] @ ''q'' @ [CHR 0x0A, CHR 0x0A]
                          @ ''t1-t1'' @ [CHR 0x0A] @ ''q'')) \<and>
   fst (snd (exec_split_query provider1 rev (str ''1D'') params1 True False True [] world0))
     = [(''table'', NoneVal)] \<and>
   fst (exec_split_query provider1 rev (str ''1D'') [(''table'', NoneVal)] True False True [] world0)
     = Inr NoResult"
  by (simp add: exec_split_query_def params1_def provider1_def dict_pop_def create_split_queries_def
      split_delta_of_def str_def endswith_H_def strip_def is_space_def calc_split_ranges_def
      date_range_def timedelta_div_one_day [unfolded one_day_def] one_day_def one_ns_def dict_of_def
      transcript_def world0_def log_msg_def Let_def upt_0_3)

text \<open>
  C4, amended. A debug call runs no task (the call counts of the world are
  unchanged); its result depends on the split unit, the provider and
  \<open>query_params\<close> alone, so two calls that start from equal dictionaries return
  equal transcripts; and a further debug call on the dictionary that the first
  call leaves behind returns \<open>None\<close>.
\<close>

theorem debug_split_query_runs_nothing:
  "calls (snd (snd (exec_split_query p completion split_by query_params progress retry_on_error True kwargs w)))
     = calls w \<and>
   fst (exec_split_query p completion split_by query_params progress retry_on_error True kwargs w)
     = fst (exec_split_query p completion' split_by query_params progress' retry_on_error' True kwargs' w') \<and>
   fst (exec_split_query p completion split_by
         (fst (snd (exec_split_query p completion split_by query_params progress retry_on_error True kwargs w)))
         progress retry_on_error True kwargs w'') = Inr NoResult"
proof -
  have gone: "map_of (snd (dict_pop ''end'' (snd (dict_pop ''start'' query_params)))) ''start'' = None"
    by (simp add: snd_dict_pop map_of_eq_None_iff image_iff)
  have none: "\<And>d. map_of d ''start'' = None \<Longrightarrow>
     fst (exec_split_query p completion split_by d progress retry_on_error True kwargs w'') = Inr NoResult"
    by (simp add: exec_split_query_def dict_pop_def split: prod.splits option.splits pval.splits)
  have a: "calls (snd (snd (exec_split_query p completion split_by query_params progress retry_on_error True kwargs w))) = calls w"
    by (simp add: exec_split_query_def log_msg_def split: prod.splits pval.splits sum.splits)
  have b: "fst (exec_split_query p completion split_by query_params progress retry_on_error True kwargs w)
     = fst (exec_split_query p completion' split_by query_params progress' retry_on_error' True kwargs' w')"
    by (simp add: exec_split_query_def split: prod.splits pval.splits sum.splits)
  show ?thesis using a b none [OF gone] by (simp only: params_after) 
qed

end
